theory Spec2Isabelle
  imports Main
begin

section \<open>The universe provider: identity, resource types, configuration\<close>

text \<open>
  A shallow embedding of \<^verbatim>\<open>universe/provider.go\<close>. Go strings are byte
  sequences and are modelled as \<^typ>\<open>string\<close>; the process environment read by
  \<^verbatim>\<open>os.LookupEnv\<close> is a map from variable names to values, where \<open>None\<close>
  is the \<^verbatim>\<open>ok = false\<close> answer.
\<close>

subsection \<open>Dynamic values\<close>

text \<open>
  The values an \<^verbatim>\<open>interface{}\<close> holds when it comes out of a reader:
  \<^verbatim>\<open>nil\<close>, \<^verbatim>\<open>bool\<close>, \<^verbatim>\<open>int\<close>, \<^verbatim>\<open>string\<close>, \<^verbatim>\<open>[]interface{}\<close>,
  \<^verbatim>\<open>map[string]interface{}\<close> (\<open>VMap\<close>) and, for a map of another dynamic type,
  \<^verbatim>\<open>map[string]string\<close> (\<open>VStrMap\<close>). The entries of a map are kept as a list of
  pairs; nothing below depends on their order.
\<close>

datatype val =
    VNil
  | VBool bool
  | VInt int
  | VString string
  | VList "val list"
  | VMap "(string \<times> val) list"
  | VStrMap "(string \<times> string) list"

text \<open>
  The type assertion \<^verbatim>\<open>e.(map[string]interface{})\<close>: its \<^verbatim>\<open>ok\<close> result. The
  assertion compares dynamic types exactly, so it holds of a
  \<^verbatim>\<open>map[string]interface{}\<close> and of no other value, a map of another type included.
\<close>

fun is_map :: "val \<Rightarrow> bool" where
  "is_map (VMap kvs) = True"
| "is_map _ = False"

text \<open>The value is a Go map, of whatever type.\<close>

fun is_go_map :: "val \<Rightarrow> bool" where
  "is_go_map (VMap kvs) = True"
| "is_go_map (VStrMap kvs) = True"
| "is_go_map _ = False"

fun is_string :: "val \<Rightarrow> bool" where
  "is_string (VString s) = True"
| "is_string _ = False"

text \<open>
  The shape the specification asks of an environment entry: a map whose values are all
  strings (string-keyed by its type, flat because no value is itself a map or a list).
\<close>

fun is_flat_string_map :: "val \<Rightarrow> bool" where
  "is_flat_string_map (VMap kvs) = list_all (\<lambda>kv. is_string (snd kv)) kvs"
| "is_flat_string_map (VStrMap kvs) = True"
| "is_flat_string_map _ = False"

subsection \<open>Configuration normalisation\<close>

text \<open>
  \<^verbatim>\<open>ResourceLike\<close> is an interface; the one method used here is
  \<^verbatim>\<open>GetOk(key) (interface{}, bool)\<close>, so a reader is the function from a key to
  that pair: asked twice for a key, it answers the same.
\<close>

type_synonym ResourceLike = "string \<Rightarrow> val \<times> bool"

text \<open>
  The error built by \<^verbatim>\<open>fmt.Errorf("environment - expected map[string]interface{} bit got %#v", e)\<close>;
  it carries the offending value \<open>e\<close>.
\<close>

datatype error = EnvironmentNotMap val

definition recognized_keys :: "string list" where
  "recognized_keys = [''id_key'', ''executor'', ''script'', ''environment'', ''javascript'']"

text \<open>The loop over the recognised keys, filling \<^verbatim>\<open>configurationData\<close>.\<close>

definition collect_step :: "ResourceLike \<Rightarrow> string \<Rightarrow> (string \<rightharpoonup> val) \<Rightarrow> (string \<rightharpoonup> val)" where
  "collect_step d key configurationData =
     (case d key of (v, ok) \<Rightarrow>
        if \<not> ok then configurationData else configurationData(key \<mapsto> v))"

definition collectConfigurationData :: "ResourceLike \<Rightarrow> (string \<rightharpoonup> val)" where
  "collectConfigurationData d = fold (collect_step d) recognized_keys Map.empty"

text \<open>
  \<^verbatim>\<open>providerConfigure\<close> returns the pair \<^verbatim>\<open>(interface{}, error)\<close>; either
  component may be \<^verbatim>\<open>nil\<close>, which is \<open>None\<close> here.
\<close>

definition providerConfigure :: "ResourceLike \<Rightarrow> (string \<rightharpoonup> val) option \<times> error option" where
  "providerConfigure d =
     (let configurationData = collectConfigurationData d in
      case d ''environment'' of (e, ok) \<Rightarrow>
        if ok \<and> \<not> is_map e then (None, Some (EnvironmentNotMap e))
        else (Some configurationData, None))"

text \<open>
  \<^verbatim>\<open>providerConfigureV2\<close> hands the same result on, the error wrapped as a
  diagnostic (\<^verbatim>\<open>diag.FromErr\<close>), which is kept as the error itself.
\<close>

definition providerConfigureV2 :: "ResourceLike \<Rightarrow> (string \<rightharpoonup> val) option \<times> error option" where
  "providerConfigureV2 d =
     (case providerConfigure d of
        (result, Some err) \<Rightarrow> (result, Some err)
      | (result, None) \<Rightarrow> (result, None))"

text \<open>A reader over an explicit table of supplied keys, for concrete configurations.\<close>

definition reader_of :: "(string \<times> val) list \<Rightarrow> ResourceLike" where
  "reader_of tbl key = (case map_of tbl key of None \<Rightarrow> (VNil, False) | Some v \<Rightarrow> (v, True))"

subsection \<open>Library functions on strings and paths\<close>

text \<open>
  \<^verbatim>\<open>strings.HasPrefix(s, prefix)\<close> compares bytes.
\<close>

definition strings_HasPrefix :: "string \<Rightarrow> string \<Rightarrow> bool" where
  "strings_HasPrefix s pre = (length pre \<le> length s \<and> take (length pre) s = pre)"

text \<open>
  \<^verbatim>\<open>filepath.Base\<close> on a Unix system (separator \<^verbatim>\<open>/\<close>, no volume name):
  the empty path gives \<^verbatim>\<open>.\<close>, trailing separators are dropped, the text after the
  last separator is kept, and a path of separators only gives \<^verbatim>\<open>/\<close>.
\<close>

definition filepath_Base :: "string \<Rightarrow> string" where
  "filepath_Base path =
     (if path = [] then ''.''
      else let stripped = rev (dropWhile (\<lambda>c. c = CHR ''/'') (rev path));
               last_elem = rev (takeWhile (\<lambda>c. c \<noteq> CHR ''/'') (rev stripped))
           in if last_elem = [] then ''/'' else last_elem)"

text \<open>
  \<^verbatim>\<open>strings.ToUpper\<close> and \<^verbatim>\<open>strings.Fields\<close> decode their argument as UTF-8
  and consult the Unicode tables. The registry builder below takes the two functions as
  parameters, so that what is proved of it holds whatever they return. On ASCII text they
  are the following two functions: letters \<^verbatim>\<open>a\<close> to \<^verbatim>\<open>z\<close> are raised, and
  fields are the maximal runs free of tab, line feed, vertical tab, form feed, carriage
  return and space.
\<close>

definition ascii_upper_char :: "char \<Rightarrow> char" where
  "ascii_upper_char c =
     (case map_of (zip ''abcdefghijklmnopqrstuvwxyz'' ''ABCDEFGHIJKLMNOPQRSTUVWXYZ'') c of
        None \<Rightarrow> c | Some u \<Rightarrow> u)"

definition ascii_ToUpper :: "string \<Rightarrow> string" where
  "ascii_ToUpper s = map ascii_upper_char s"

definition ascii_space :: "char \<Rightarrow> bool" where
  "ascii_space c = (c \<in> set [CHR 0x09, CHR 0x0A, CHR 0x0B, CHR 0x0C, CHR 0x0D, CHR 0x20])"

fun fields_from :: "string \<Rightarrow> string \<Rightarrow> string list" where
  "fields_from cur [] = (if cur = [] then [] else [cur])"
| "fields_from cur (c # cs) =
     (if ascii_space c then (if cur = [] then fields_from [] cs else cur # fields_from [] cs)
      else fields_from (cur @ [c]) cs)"

definition ascii_Fields :: "string \<Rightarrow> string list" where
  "ascii_Fields s = fields_from [] s"

subsection \<open>Regular expressions\<close>

text \<open>
  The fragment of Go's \<^verbatim>\<open>regexp\<close> syntax the provider's pattern is written in:
  literal text, sequencing, the greedy operators \<^verbatim>\<open>?\<close>, \<^verbatim>\<open>+\<close> and
  \<^verbatim>\<open>*\<close> (the latter two over a character class), capturing groups and the
  end-of-text assertion \<^verbatim>\<open>$\<close>. The two classes are \<^verbatim>\<open>\d\<close>, the ASCII digits,
  and \<^verbatim>\<open>[^\d]\<close>, everything else (line feed included).

  Go matches code points where the model matches bytes. For this pattern the two agree:
  every byte of a code point beyond ASCII, and every byte that is not valid UTF-8, is a
  non-digit, and whatever follows a run of non-digits in the pattern begins with an ASCII
  character or is the end of the text, so no match ends a group inside a code point.
\<close>

definition is_digit :: "char \<Rightarrow> bool" where
  "is_digit c = (c \<in> set ''0123456789'')"

datatype cls = Digit | NonDigit

fun in_cls :: "cls \<Rightarrow> char \<Rightarrow> bool" where
  "in_cls Digit c = is_digit c"
| "in_cls NonDigit c = (\<not> is_digit c)"

datatype rx =
    Lit string
  | Cat rx rx
  | Opt rx
  | Plus cls
  | Star cls
  | Grp nat rx
  | Eot

text \<open>
  Go's matcher returns the match a backtracking search finds first (leftmost-first). A
  state is the captures so far and the text still to read; \<open>run r st\<close> lists, in the
  order of that search, the states in which \<open>r\<close> can leave off: a greedy operator lists
  the longer alternative first. A repetition of a class can stop after any number of the
  characters of the class that stand at the front of the text.
\<close>

type_synonym rx_state = "(nat \<rightharpoonup> string) \<times> string"

fun run :: "rx \<Rightarrow> rx_state \<Rightarrow> rx_state list" where
  "run (Lit w) (cs, s) =
     (if take (length w) s = w then [(cs, drop (length w) s)] else [])"
| "run (Cat a b) st = concat (map (run b) (run a st))"
| "run (Opt a) st = run a st @ [st]"
| "run (Plus k) (cs, s) =
     map (\<lambda>n. (cs, drop n s)) (rev [1 ..< Suc (length (takeWhile (in_cls k) s))])"
| "run (Star k) (cs, s) =
     map (\<lambda>n. (cs, drop n s)) (rev [0 ..< Suc (length (takeWhile (in_cls k) s))])"
| "run (Grp i a) (cs, s) =
     map (\<lambda>(cs', s'). (cs'(i \<mapsto> take (length s - length s') s), s')) (run a (cs, s))"
| "run Eot (cs, s) = (if s = [] then [(cs, s)] else [])"

fun num_subexp :: "rx \<Rightarrow> nat" where
  "num_subexp (Cat a b) = num_subexp a + num_subexp b"
| "num_subexp (Opt a) = num_subexp a"
| "num_subexp (Grp i a) = Suc (num_subexp a)"
| "num_subexp _ = 0"

text \<open>
  \<^verbatim>\<open>FindStringSubmatch\<close> for a pattern that opens with \<^verbatim>\<open>^\<close>: a match can only
  start at the first byte. The result is the empty slice when there is no match, and
  otherwise the matched text followed by the text of each group, empty for a group that
  took no part.
\<close>

definition FindStringSubmatch :: "rx \<Rightarrow> string \<Rightarrow> string list" where
  "FindStringSubmatch re text =
     (case run re (Map.empty, text) of
        [] \<Rightarrow> []
      | (cs, rest) # _ \<Rightarrow>
          take (length text - length rest) text
          # map (\<lambda>i. case cs i of None \<Rightarrow> [] | Some g \<Rightarrow> g) [1 ..< Suc (num_subexp re)])"

text \<open>
  Two notions for reasoning about the matcher. \<open>leads r st x\<close>: the search for \<open>r\<close>
  from \<open>st\<close> reaches \<open>x\<close> first. \<open>den r u v\<close>: the text \<open>u\<close>, followed by \<open>v\<close>, is
  in the language of \<open>r\<close>.
\<close>

definition leads :: "rx \<Rightarrow> rx_state \<Rightarrow> rx_state \<Rightarrow> bool" where
  "leads r st x = (\<exists>xs. run r st = x # xs)"

fun den :: "rx \<Rightarrow> string \<Rightarrow> string \<Rightarrow> bool" where
  "den (Lit w) u v = (u = w)"
| "den (Cat a b) u v = (\<exists>u1 u2. u = u1 @ u2 \<and> den a u1 (u2 @ v) \<and> den b u2 v)"
| "den (Opt a) u v = (u = [] \<or> den a u v)"
| "den (Plus k) u v = (u \<noteq> [] \<and> (\<forall>c \<in> set u. in_cls k c))"
| "den (Star k) u v = (\<forall>c \<in> set u. in_cls k c)"
| "den (Grp i a) u v = den a u v"
| "den Eot u v = (u = [] \<and> v = [])"

subsection \<open>Identity resolution\<close>

definition DefaultProviderName :: string where
  "DefaultProviderName = ''universe''"

definition EnvProviderNameVar :: string where
  "EnvProviderNameVar = ''TERRAFORM_UNIVERSE_PROVIDERNAME''"

text \<open>
  The pattern
  \<^verbatim>\<open>^terraform-provider-(?:([^\d]+))(?:-(\d+(?:\.\d+(?:\.\d+)?)?))?(?:-pre\d*)?$\<close>.
\<close>

definition version_rx :: rx where
  "version_rx =
     Cat (Plus Digit)
       (Opt (Cat (Lit ''.'') (Cat (Plus Digit) (Opt (Cat (Lit ''.'') (Plus Digit))))))"

definition suffix_rx :: rx where
  "suffix_rx =
     Cat (Opt (Cat (Lit ''-'') (Grp 2 version_rx)))
       (Cat (Opt (Cat (Lit ''-pre'') (Star Digit))) Eot)"

definition provider_rx :: rx where
  "provider_rx = Cat (Lit ''terraform-provider-'') (Cat (Grp 1 (Plus NonDigit)) suffix_rx)"

text \<open>
  \<open>env\<close> is the process environment and \<open>arg0\<close> is \<^verbatim>\<open>os.Args[0]\<close>, the name the
  process was started under (\<^verbatim>\<open>os.Args\<close> always holds it). The result is a plain
  string, as in the source: the function has no error result.
\<close>

definition getProviderNameFromBinaryOrEnvironment :: "(string \<rightharpoonup> string) \<Rightarrow> string \<Rightarrow> string" where
  "getProviderNameFromBinaryOrEnvironment env arg0 =
     (case env EnvProviderNameVar of
        Some name \<Rightarrow> name
      | None \<Rightarrow>
          let binaryName = filepath_Base arg0;
              s = FindStringSubmatch provider_rx binaryName
          in if length s \<ge> 2 then s ! 1 else DefaultProviderName)"

text \<open>
  The pattern in the words of the specification: the literal prefix, a name of one or more
  non-digit characters, optionally a version suffix (a hyphen and one to three dot-separated
  runs of digits), optionally a pre-release suffix (\<^verbatim>\<open>-pre\<close> and digits).
\<close>

definition digits :: "string \<Rightarrow> bool" where
  "digits s = (\<forall>c \<in> set s. is_digit c)"

definition is_component :: "string \<Rightarrow> bool" where
  "is_component s = (s \<noteq> [] \<and> digits s)"

definition is_version_suffix :: "string \<Rightarrow> bool" where
  "is_version_suffix v =
     ((\<exists>a. is_component a \<and> v = ''-'' @ a)
      \<or> (\<exists>a b. is_component a \<and> is_component b \<and> v = ''-'' @ a @ ''.'' @ b)
      \<or> (\<exists>a b c. is_component a \<and> is_component b \<and> is_component c
            \<and> v = ''-'' @ a @ ''.'' @ b @ ''.'' @ c))"

definition is_pre_suffix :: "string \<Rightarrow> bool" where
  "is_pre_suffix p = (\<exists>ds. digits ds \<and> p = ''-pre'' @ ds)"

definition is_provider_name :: "string \<Rightarrow> bool" where
  "is_provider_name name = (name \<noteq> [] \<and> (\<forall>c \<in> set name. \<not> is_digit c))"

definition matches_provider_pattern :: "string \<Rightarrow> bool" where
  "matches_provider_pattern b =
     (\<exists>name ver pre.
        b = ''terraform-provider-'' @ name @ ver @ pre
        \<and> is_provider_name name
        \<and> (ver = [] \<or> is_version_suffix ver)
        \<and> (pre = [] \<or> is_pre_suffix pre))"

subsection \<open>The resource type registry\<close>

text \<open>The identifier the loop stores for a field \<open>x\<close>: the value of \<^verbatim>\<open>rtn\<close>.\<close>

definition rtn_for :: "string \<Rightarrow> string \<Rightarrow> string" where
  "rtn_for pre x = (if \<not> strings_HasPrefix x pre then pre @ x else x)"

text \<open>The body of the loop over the fields: \<^verbatim>\<open>result[rtn] = true\<close>.\<close>

definition add_resource_type :: "string \<Rightarrow> string \<Rightarrow> (string \<rightharpoonup> bool) \<Rightarrow> (string \<rightharpoonup> bool)" where
  "add_resource_type pre x result = (let rtn = rtn_for pre x in result(rtn \<mapsto> True))"

text \<open>
  The result is a \<^verbatim>\<open>map[string]bool\<close>; its keys are the resource type set. The first
  two arguments stand for \<^verbatim>\<open>strings.ToUpper\<close> and \<^verbatim>\<open>strings.Fields\<close>.
\<close>

definition getResourceTypeNamesFromEnvironment ::
  "(string \<Rightarrow> string) \<Rightarrow> (string \<Rightarrow> string list) \<Rightarrow> (string \<rightharpoonup> string) \<Rightarrow> string
     \<Rightarrow> (string \<rightharpoonup> bool)" where
  "getResourceTypeNamesFromEnvironment ToUpper Fields env providerName =
     (let result = [providerName \<mapsto> True];
          pre = providerName @ ''_'';
          resourceTypesVarName = ''TERRAFORM_'' @ ToUpper providerName @ ''_RESOURCETYPES''
      in case env resourceTypesVarName of
           None \<Rightarrow> result
         | Some resourceTypeNames \<Rightarrow>
             fold (add_resource_type pre) (Fields resourceTypeNames) result)"

section \<open>Properties of configuration normalisation\<close>

lemma collect_fold_lookup:
  "fold (collect_step d) ks m k =
     (if k \<in> set ks \<and> snd (d k) then Some (fst (d k)) else m k)"
  by (induction ks arbitrary: m) (auto simp: collect_step_def split: prod.splits)

lemma collectConfigurationData_lookup:
  "collectConfigurationData d k =
     (if k \<in> set recognized_keys \<and> snd (d k) then Some (fst (d k)) else None)"
  by (simp add: collectConfigurationData_def collect_fold_lookup)

lemma collectConfigurationData_dom:
  "dom (collectConfigurationData d) = {k \<in> set recognized_keys. snd (d k)}"
  by (auto simp: dom_def collectConfigurationData_lookup)

lemma executor_script_recognized:
  "''executor'' \<in> set recognized_keys" "''script'' \<in> set recognized_keys"
  by (simp_all add: recognized_keys_def)

text \<open>
  C1, as the code has it: normalisation returns an error exactly when an environment
  value was supplied and that value is not a \<^verbatim>\<open>map[string]interface{}\<close>; this is
  its only error condition, and when the environment is absent or is a
  \<^verbatim>\<open>map[string]interface{}\<close> it succeeds with the collected configuration and no
  error.
\<close>

theorem providerConfigure_error_iff:
  "(snd (providerConfigure d) \<noteq> None) =
     (snd (d ''environment'') \<and> \<not> is_map (fst (d ''environment'')))
   \<and> ((\<not> snd (d ''environment'') \<or> is_map (fst (d ''environment''))) \<longrightarrow>
        providerConfigure d = (Some (collectConfigurationData d), None))"
  by (auto simp: providerConfigure_def Let_def split: prod.splits)

theorem providerConfigure_error_iff_witness:
  "snd (providerConfigure (reader_of [(''environment'', VString ''PATH=/bin'')])) \<noteq> None
   \<and> providerConfigure (reader_of [(''executor'', VString ''python'')])
       = (Some (collectConfigurationData (reader_of [(''executor'', VString ''python'')])), None)
   \<and> is_map (fst (reader_of [(''environment'', VMap [(''HOME'', VString ''/root'')])] ''environment''))
   \<and> providerConfigure (reader_of [(''environment'', VMap [(''HOME'', VString ''/root'')])])
       = (Some (collectConfigurationData
            (reader_of [(''environment'', VMap [(''HOME'', VString ''/root'')])])), None)"
  using providerConfigure_error_iff [of "reader_of [(''environment'', VString ''PATH=/bin'')]"]
        providerConfigure_error_iff [of "reader_of [(''executor'', VString ''python'')]"]
        providerConfigure_error_iff
          [of "reader_of [(''environment'', VMap [(''HOME'', VString ''/root'')])]"]
  by (simp add: reader_of_def)

text \<open>
  A map of another type is refused: an environment supplied as a
  \<^verbatim>\<open>map[string]string\<close> is a map, and normalisation returns the error for it. So C1
  does not hold in the form "an error if and only if the supplied value is not a map".
\<close>

theorem providerConfigure_typed_map_counterexample:
  "\<not> ((snd (providerConfigure (reader_of [(''environment'', VStrMap [(''HOME'', ''/root'')])])) \<noteq> None)
       = (snd (reader_of [(''environment'', VStrMap [(''HOME'', ''/root'')])] ''environment'')
          \<and> \<not> is_go_map
                (fst (reader_of [(''environment'', VStrMap [(''HOME'', ''/root'')])] ''environment''))))"
  by (simp add: reader_of_def providerConfigure_def Let_def)

text \<open>
  C2, as the code has it: when normalisation fails, the caller receives \<^verbatim>\<open>nil\<close> in
  place of the configuration map, from \<^verbatim>\<open>providerConfigure\<close> and from
  \<^verbatim>\<open>providerConfigureV2\<close> alike, together with the error that carries the offending
  environment value.
\<close>

theorem providerConfigure_failure_result:
  "snd (providerConfigure d) \<noteq> None \<Longrightarrow>
     providerConfigure d = (None, Some (EnvironmentNotMap (fst (d ''environment''))))
     \<and> providerConfigureV2 d = (None, Some (EnvironmentNotMap (fst (d ''environment''))))"
  by (auto simp: providerConfigure_def providerConfigureV2_def Let_def split: prod.splits if_splits)

theorem providerConfigure_failure_result_witness:
  "snd (providerConfigure
          (reader_of [(''executor'', VString ''python''), (''environment'', VString ''PATH=/bin'')])) \<noteq> None
   \<and> providerConfigure
        (reader_of [(''executor'', VString ''python''), (''environment'', VString ''PATH=/bin'')])
       = (None, Some (EnvironmentNotMap (VString ''PATH=/bin'')))
   \<and> providerConfigureV2
        (reader_of [(''executor'', VString ''python''), (''environment'', VString ''PATH=/bin'')])
       = (None, Some (EnvironmentNotMap (VString ''PATH=/bin'')))"
proof -
  let ?d = "reader_of [(''executor'', VString ''python''), (''environment'', VString ''PATH=/bin'')]"
  have failed: "snd (providerConfigure ?d) \<noteq> None"
    by (simp add: reader_of_def providerConfigure_def Let_def)
  have "fst (?d ''environment'') = VString ''PATH=/bin''"
    by (simp add: reader_of_def)
  with providerConfigure_failure_result [OF failed] failed show ?thesis by simp
qed

text \<open>
  The partial map is not handed on: with an executor supplied and a string for the
  environment, the map built so far holds the executor, and the first component of the
  result is \<^verbatim>\<open>nil\<close> all the same. So C2 does not hold in the form "the caller still
  receives the partial map".
\<close>

theorem providerConfigure_partial_map_counterexample:
  "\<not> (snd (providerConfigure
              (reader_of [(''executor'', VString ''python''), (''environment'', VString ''PATH=/bin'')])) \<noteq> None
       \<longrightarrow> fst (providerConfigure
              (reader_of [(''executor'', VString ''python''), (''environment'', VString ''PATH=/bin'')]))
            = Some (collectConfigurationData
              (reader_of [(''executor'', VString ''python''), (''environment'', VString ''PATH=/bin'')])))"
  by (simp add: reader_of_def providerConfigure_def Let_def)

text \<open>
  C3, as the code has it: in every accepted configuration, an environment entry of the
  snapshot is a \<^verbatim>\<open>map[string]interface{}\<close>, a string-keyed map; what its values are is
  not examined.
\<close>

theorem providerConfigure_environment_is_map:
  "providerConfigure d = (Some m, None) \<Longrightarrow> m ''environment'' = Some v \<Longrightarrow> is_map v"
  by (auto simp: providerConfigure_def Let_def collectConfigurationData_lookup
           split: prod.splits if_splits)

theorem providerConfigure_environment_is_map_witness:
  "providerConfigure (reader_of [(''environment'', VMap [(''HOME'', VString ''/root'')])])
     = (Some (collectConfigurationData
          (reader_of [(''environment'', VMap [(''HOME'', VString ''/root'')])])), None)
   \<and> collectConfigurationData
        (reader_of [(''environment'', VMap [(''HOME'', VString ''/root'')])]) ''environment''
       = Some (VMap [(''HOME'', VString ''/root'')])
   \<and> is_map (VMap [(''HOME'', VString ''/root'')])"
proof -
  let ?d = "reader_of [(''environment'', VMap [(''HOME'', VString ''/root'')])]"
  have ok: "providerConfigure ?d = (Some (collectConfigurationData ?d), None)"
    by (simp add: reader_of_def providerConfigure_def Let_def)
  have entry: "collectConfigurationData ?d ''environment'' = Some (VMap [(''HOME'', VString ''/root'')])"
    by (simp add: collectConfigurationData_lookup reader_of_def recognized_keys_def)
  from providerConfigure_environment_is_map [OF ok entry] ok entry show ?thesis by simp
qed

text \<open>
  The values of the map are not examined: a map with an integer value is accepted and
  stored, and it is not a string-valued mapping. So C3 does not hold in the form "the
  entry is a flat string-valued mapping".
\<close>

theorem providerConfigure_flat_environment_counterexample:
  "providerConfigure (reader_of [(''environment'', VMap [(''depth'', VInt 1)])])
     = (Some (collectConfigurationData (reader_of [(''environment'', VMap [(''depth'', VInt 1)])])), None)
   \<and> collectConfigurationData (reader_of [(''environment'', VMap [(''depth'', VInt 1)])]) ''environment''
       = Some (VMap [(''depth'', VInt 1)])
   \<and> \<not> is_flat_string_map (VMap [(''depth'', VInt 1)])"
  by (simp add: reader_of_def providerConfigure_def Let_def collectConfigurationData_lookup
        recognized_keys_def)

text \<open>
  C10: the snapshot of a successful normalisation has exactly the recognised keys that the
  reader reports as supplied, each with the supplied value; when only executor and script
  are supplied, its keys are exactly those two.
\<close>

theorem providerConfigure_sparse:
  "providerConfigure d = (Some m, None) \<Longrightarrow>
     dom m = {k \<in> set recognized_keys. snd (d k)}
     \<and> (\<forall>k \<in> dom m. m k = Some (fst (d k)))
     \<and> ((\<forall>k \<in> set recognized_keys. snd (d k) = (k = ''executor'' \<or> k = ''script''))
          \<longrightarrow> dom m = {''executor'', ''script''})"
proof -
  assume ok: "providerConfigure d = (Some m, None)"
  have m: "m = collectConfigurationData d"
    using ok by (simp add: providerConfigure_def Let_def split: prod.splits if_splits)
  have keys: "dom m = {k \<in> set recognized_keys. snd (d k)}"
    unfolding m by (rule collectConfigurationData_dom)
  have vals: "\<forall>k \<in> dom m. m k = Some (fst (d k))"
    unfolding m by (auto simp: collectConfigurationData_lookup split: if_splits)
  have two: "dom m = {''executor'', ''script''}"
    if only: "\<forall>k \<in> set recognized_keys. snd (d k) = (k = ''executor'' \<or> k = ''script'')"
  proof -
    have "dom m = {k \<in> set recognized_keys. k = ''executor'' \<or> k = ''script''}"
      using keys only by blast
    also have "\<dots> = {''executor'', ''script''}"
      using executor_script_recognized by blast
    finally show ?thesis .
  qed
  from keys vals two show ?thesis by blast
qed

theorem providerConfigure_sparse_witness:
  "providerConfigure (reader_of [(''executor'', VString ''python''), (''script'', VString ''main.py'')])
     = (Some (collectConfigurationData
          (reader_of [(''executor'', VString ''python''), (''script'', VString ''main.py'')])), None)
   \<and> dom (collectConfigurationData
          (reader_of [(''executor'', VString ''python''), (''script'', VString ''main.py'')]))
     = {''executor'', ''script''}
   \<and> collectConfigurationData
        (reader_of [(''executor'', VString ''python''), (''script'', VString ''main.py'')]) ''id_key''
     = None"
proof -
  let ?d = "reader_of [(''executor'', VString ''python''), (''script'', VString ''main.py'')]"
  have ok: "providerConfigure ?d = (Some (collectConfigurationData ?d), None)"
    by (simp add: reader_of_def providerConfigure_def Let_def)
  have only: "\<forall>k \<in> set recognized_keys. snd (?d k) = (k = ''executor'' \<or> k = ''script'')"
    by (simp add: reader_of_def recognized_keys_def)
  from providerConfigure_sparse [OF ok] only
  have "dom (collectConfigurationData ?d) = {''executor'', ''script''}" by blast
  moreover have "collectConfigurationData ?d ''id_key'' = None"
    by (simp add: collectConfigurationData_lookup reader_of_def)
  ultimately show ?thesis using ok by simp
qed

section \<open>Properties of the resource type registry\<close>

lemma add_resource_type_fold_dom:
  "dom (fold (add_resource_type pre) xs m) = dom m \<union> rtn_for pre ` set xs"
  by (induction xs arbitrary: m) (auto simp: add_resource_type_def Let_def)

lemma rtn_for_alt: "rtn_for pre x = (if strings_HasPrefix x pre then x else pre @ x)"
  by (simp add: rtn_for_def)

lemma rtn_for_has_prefix: "strings_HasPrefix (rtn_for pre x) pre"
  by (simp add: rtn_for_alt strings_HasPrefix_def)

lemma rtn_for_examples:
  "rtn_for ''widget_'' ''foo'' = ''widget_foo''"
  "rtn_for ''widget_'' ''widget_bar'' = ''widget_bar''"
  by (simp_all add: rtn_for_alt strings_HasPrefix_def)

lemma registry_dom:
  "dom (getResourceTypeNamesFromEnvironment ToUpper Fields env providerName) =
     (case env (''TERRAFORM_'' @ ToUpper providerName @ ''_RESOURCETYPES'') of
        None \<Rightarrow> {providerName}
      | Some v \<Rightarrow> insert providerName (rtn_for (providerName @ ''_'') ` set (Fields v)))"
  by (simp add: getResourceTypeNamesFromEnvironment_def Let_def add_resource_type_fold_dom
           split: option.splits)

lemma ascii_ToUpper_widget: "ascii_ToUpper ''widget'' = ''WIDGET''"
  by (simp add: ascii_ToUpper_def ascii_upper_char_def)

lemma ascii_Fields_example: "ascii_Fields ''foo widget_bar'' = [''foo'', ''widget_bar'']"
  by (simp add: ascii_Fields_def ascii_space_def)

text \<open>
  C7: for every identity and every environment, the identity is a member of the built
  set, and every member is the identity itself or begins with the identity followed by an
  underscore.
\<close>

theorem registry_members:
  "providerName \<in> dom (getResourceTypeNamesFromEnvironment ToUpper Fields env providerName)
   \<and> (\<forall>x \<in> dom (getResourceTypeNamesFromEnvironment ToUpper Fields env providerName).
         x = providerName \<or> strings_HasPrefix x (providerName @ ''_''))"
  by (auto simp: registry_dom rtn_for_has_prefix split: option.splits)

theorem registry_members_witness:
  "''widget'' \<in> dom (getResourceTypeNamesFromEnvironment ascii_ToUpper ascii_Fields
        [''TERRAFORM_WIDGET_RESOURCETYPES'' \<mapsto> ''foo widget_bar''] ''widget'')
   \<and> ''widget_foo'' \<in> dom (getResourceTypeNamesFromEnvironment ascii_ToUpper ascii_Fields
        [''TERRAFORM_WIDGET_RESOURCETYPES'' \<mapsto> ''foo widget_bar''] ''widget'')
   \<and> (''widget_foo'' = ''widget'' \<or> strings_HasPrefix ''widget_foo'' (''widget'' @ ''_''))"
proof -
  let ?r = "getResourceTypeNamesFromEnvironment ascii_ToUpper ascii_Fields
        [''TERRAFORM_WIDGET_RESOURCETYPES'' \<mapsto> ''foo widget_bar''] ''widget''"
  have mem: "''widget_foo'' \<in> dom ?r"
    by (simp add: registry_dom ascii_ToUpper_widget ascii_Fields_example rtn_for_examples)
  note members = registry_members [of "''widget''" ascii_ToUpper ascii_Fields
      "[''TERRAFORM_WIDGET_RESOURCETYPES'' \<mapsto> ''foo widget_bar'']"]
  have own: "''widget'' \<in> dom ?r"
    using members by (rule conjunct1)
  have shape: "''widget_foo'' = ''widget'' \<or> strings_HasPrefix ''widget_foo'' (''widget'' @ ''_'')"
    using members [THEN conjunct2] mem by (rule bspec)
  show ?thesis using own mem shape by (intro conjI)
qed

text \<open>
  C8: when the resource type variable is set, the built set is the identity together
  with, for every field of the variable's value, the field itself if it starts with the
  identity and an underscore, and the field with that prefix prepended otherwise; being a
  set, it holds each identifier once. For identity \<^verbatim>\<open>widget\<close> and the value
  \<^verbatim>\<open>foo widget_bar\<close> the set is \<^verbatim>\<open>{widget, widget_foo, widget_bar}\<close>.
\<close>

theorem registry_tokens:
  "(env (''TERRAFORM_'' @ ToUpper providerName @ ''_RESOURCETYPES'') = Some v \<longrightarrow>
      dom (getResourceTypeNamesFromEnvironment ToUpper Fields env providerName)
        = insert providerName
            ((\<lambda>x. if strings_HasPrefix x (providerName @ ''_'') then x
                   else providerName @ ''_'' @ x) ` set (Fields v)))
   \<and> (env ''TERRAFORM_WIDGET_RESOURCETYPES'' = Some ''foo widget_bar'' \<longrightarrow>
      dom (getResourceTypeNamesFromEnvironment ascii_ToUpper ascii_Fields env ''widget'')
        = {''widget'', ''widget_foo'', ''widget_bar''})"
proof -
  have "rtn_for (providerName @ ''_'') = (\<lambda>x. if strings_HasPrefix x (providerName @ ''_'') then x
                   else providerName @ ''_'' @ x)"
    by (rule ext) (simp add: rtn_for_alt)
  then show ?thesis
    by (simp add: registry_dom ascii_ToUpper_widget ascii_Fields_example rtn_for_examples
          insert_commute)
qed

theorem registry_tokens_witness:
  "dom (getResourceTypeNamesFromEnvironment ascii_ToUpper ascii_Fields
          [''TERRAFORM_WIDGET_RESOURCETYPES'' \<mapsto> ''foo widget_bar''] ''widget'')
     = {''widget'', ''widget_foo'', ''widget_bar''}"
  using registry_tokens [of "[''TERRAFORM_WIDGET_RESOURCETYPES'' \<mapsto> ''foo widget_bar'']"
      ascii_ToUpper "''widget''" "''foo widget_bar''" ascii_Fields]
  by simp

text \<open>
  C9: when the variable named \<^verbatim>\<open>TERRAFORM_\<close>, the uppercased identity,
  \<^verbatim>\<open>_RESOURCETYPES\<close> is absent, the built set is the singleton of the identity.
\<close>

theorem registry_absent:
  "env (''TERRAFORM_'' @ ToUpper providerName @ ''_RESOURCETYPES'') = None \<Longrightarrow>
     getResourceTypeNamesFromEnvironment ToUpper Fields env providerName = [providerName \<mapsto> True]
     \<and> dom (getResourceTypeNamesFromEnvironment ToUpper Fields env providerName) = {providerName}"
  by (simp add: getResourceTypeNamesFromEnvironment_def Let_def)

theorem registry_absent_witness:
  "[''TERRAFORM_GADGET_RESOURCETYPES'' \<mapsto> ''foo'']
       (''TERRAFORM_'' @ ascii_ToUpper ''widget'' @ ''_RESOURCETYPES'') = None
   \<and> dom (getResourceTypeNamesFromEnvironment ascii_ToUpper ascii_Fields
          [''TERRAFORM_GADGET_RESOURCETYPES'' \<mapsto> ''foo''] ''widget'') = {''widget''}"
  using registry_absent [of "[''TERRAFORM_GADGET_RESOURCETYPES'' \<mapsto> ''foo'']"
      ascii_ToUpper "''widget''" ascii_Fields]
  by (simp add: ascii_ToUpper_widget)

section \<open>Properties of identity resolution\<close>

text \<open>
  C4: whenever the override variable is set, the empty string included, resolution
  returns its value, whatever the process was started as.
\<close>

theorem override_wins:
  "env EnvProviderNameVar = Some v \<Longrightarrow> getProviderNameFromBinaryOrEnvironment env arg0 = v"
  by (simp add: getProviderNameFromBinaryOrEnvironment_def)

theorem override_wins_witness:
  "[EnvProviderNameVar \<mapsto> []] EnvProviderNameVar = Some []
   \<and> getProviderNameFromBinaryOrEnvironment [EnvProviderNameVar \<mapsto> []]
        ''/usr/bin/terraform-provider-widget'' = []"
  using override_wins [of "[EnvProviderNameVar \<mapsto> []]" "[]"
      "''/usr/bin/terraform-provider-widget''"]
  by simp

subsection \<open>What the search reaches first\<close>

lemma leads_Cat: "leads a st x \<Longrightarrow> leads b x y \<Longrightarrow> leads (Cat a b) st y"
  by (auto simp: leads_def)

lemma leads_Opt: "leads a st x \<Longrightarrow> leads (Opt a) st x"
  by (auto simp: leads_def)

lemma leads_Lit: "leads (Lit w) (cs, w @ s) (cs, s)"
  by (simp add: leads_def)

lemma leads_Grp: "leads a (cs, s) (cs', []) \<Longrightarrow> leads (Grp i a) (cs, s) (cs'(i \<mapsto> s), [])"
  by (auto simp: leads_def)

lemma takeWhile_run:
  assumes "\<forall>c \<in> set u. P c" "v = [] \<or> \<not> P (hd v)"
  shows "takeWhile P (u @ v) = u"
proof -
  have "takeWhile P v = []" using assms(2) by (cases v) auto
  with assms(1) show ?thesis by (simp add: takeWhile_append2)
qed

lemma rev_upt_from_1: "n \<noteq> 0 \<Longrightarrow> rev [1 ..< Suc n] = n # rev [1 ..< n]"
  by simp

lemma leads_Plus:
  assumes "u \<noteq> []" "\<forall>c \<in> set u. in_cls k c" "v = [] \<or> \<not> in_cls k (hd v)"
  shows "leads (Plus k) (cs, u @ v) (cs, v)"
proof -
  have "takeWhile (in_cls k) (u @ v) = u" using assms(2,3) by (rule takeWhile_run)
  moreover have "rev [1 ..< Suc (length u)] = length u # rev [1 ..< length u]"
    using assms(1) by (simp add: Suc_le_eq)
  ultimately show ?thesis by (simp add: leads_def)
qed

lemma is_digit_not_punct: "is_digit c \<Longrightarrow> c \<noteq> CHR ''-'' \<and> c \<noteq> CHR ''.''"
  by (auto simp: is_digit_def)

lemma component_cases: "is_component a \<Longrightarrow> \<exists>d t. a = d # t \<and> is_digit d"
  by (cases a) (auto simp: is_component_def digits_def)

lemma leads_digits_dot:
  assumes "is_component a"
  shows "leads (Plus Digit) (cs, a @ CHR ''.'' # t) (cs, CHR ''.'' # t)"
  using assms leads_Plus [of a Digit "CHR ''.'' # t" cs]
  by (auto simp: is_component_def digits_def is_digit_def)

lemma leads_digits_end:
  assumes "is_component a"
  shows "leads (Plus Digit) (cs, a) (cs, [])"
  using assms leads_Plus [of a Digit "[]" cs]
  by (auto simp: is_component_def digits_def)

lemma leads_version_rx:
  assumes "is_component a" "is_component b" "is_component c"
  shows "leads version_rx (cs, a @ ''.'' @ b @ ''.'' @ c) (cs, [])"
proof -
  have 1: "leads (Cat (Lit ''.'') (Plus Digit)) (cs, ''.'' @ c) (cs, [])"
    by (rule leads_Cat [OF leads_Lit leads_digits_end [OF assms(3)]])
  have 2: "leads (Cat (Plus Digit) (Opt (Cat (Lit ''.'') (Plus Digit)))) (cs, b @ ''.'' @ c) (cs, [])"
    using leads_Cat [OF leads_digits_dot [OF assms(2)] leads_Opt [OF 1 [simplified]]] by simp
  have 3: "leads (Cat (Lit ''.'') (Cat (Plus Digit) (Opt (Cat (Lit ''.'') (Plus Digit)))))
             (cs, ''.'' @ b @ ''.'' @ c) (cs, [])"
    by (rule leads_Cat [OF leads_Lit 2])
  show ?thesis
    unfolding version_rx_def
    using leads_Cat [OF leads_digits_dot [OF assms(1)] leads_Opt [OF 3 [simplified]]] by simp
qed

lemma run_tail_at_end:
  "run (Cat (Opt (Cat (Lit ''-pre'') (Star Digit))) Eot) (cs, []) = [(cs, [])]"
  by simp

lemma leads_suffix_rx_end: "leads suffix_rx (cs, []) (cs, [])"
  by (simp add: leads_def suffix_rx_def)

lemma leads_suffix_rx_version:
  assumes "is_component a" "is_component b" "is_component c"
  shows "leads suffix_rx (cs, ''-'' @ a @ ''.'' @ b @ ''.'' @ c)
           (cs(2 \<mapsto> a @ ''.'' @ b @ ''.'' @ c), [])"
proof -
  have "leads (Opt (Cat (Lit ''-'') (Grp 2 version_rx))) (cs, ''-'' @ a @ ''.'' @ b @ ''.'' @ c)
          (cs(2 \<mapsto> a @ ''.'' @ b @ ''.'' @ c), [])"
    by (rule leads_Opt [OF leads_Cat [OF leads_Lit leads_Grp [OF leads_version_rx [OF assms]]]])
  moreover have "leads (Cat (Opt (Cat (Lit ''-pre'') (Star Digit))) Eot)
          (cs(2 \<mapsto> a @ ''.'' @ b @ ''.'' @ c), []) (cs(2 \<mapsto> a @ ''.'' @ b @ ''.'' @ c), [])"
    by (simp add: leads_def)
  ultimately show ?thesis unfolding suffix_rx_def by (rule leads_Cat)
qed

lemma run_suffix_rx_digit: "is_digit d \<Longrightarrow> run suffix_rx (cs, d # t) = []"
  using is_digit_not_punct [of d] by (simp add: suffix_rx_def)

lemma run_name_all:
  assumes "is_provider_name name"
  shows "leads (Grp 1 (Plus NonDigit)) (cs, name) (cs(1 \<mapsto> name), [])"
  using assms leads_Grp [OF leads_Plus [of name NonDigit "[]" cs]]
  by (simp add: is_provider_name_def)

lemma run_name_hyphen:
  assumes "is_provider_name name" "is_digit d"
  shows "\<exists>xs. run (Grp 1 (Plus NonDigit)) (cs, name @ CHR ''-'' # d # t)
           = (cs(1 \<mapsto> name @ ''-''), d # t) # (cs(1 \<mapsto> name), CHR ''-'' # d # t) # xs"
proof -
  let ?u = "name @ ''-''"
  have nd: "\<forall>c \<in> set ?u. in_cls NonDigit c"
    using assms(1) by (auto simp: is_provider_name_def is_digit_def)
  have tw: "takeWhile (in_cls NonDigit) (?u @ d # t) = ?u"
    using nd assms(2) by (intro takeWhile_run) auto
  have len: "length name \<noteq> 0" using assms(1) by (simp add: is_provider_name_def)
  have up: "rev [1 ..< Suc (length ?u)] = Suc (length name) # length name # rev [1 ..< length name]"
    using len by (simp add: Suc_le_eq)
  show ?thesis using tw up by simp
qed

lemma FindStringSubmatch_plain:
  assumes "is_provider_name name"
  shows "FindStringSubmatch provider_rx (''terraform-provider-'' @ name)
           = [''terraform-provider-'' @ name, name, []]"
proof -
  have "leads provider_rx (Map.empty, ''terraform-provider-'' @ name) ([1 \<mapsto> name], [])"
    unfolding provider_rx_def
    by (rule leads_Cat [OF leads_Lit leads_Cat [OF run_name_all [OF assms] leads_suffix_rx_end]])
  then obtain xs where "run provider_rx (Map.empty, ''terraform-provider-'' @ name) = ([1 \<mapsto> name], []) # xs"
    by (auto simp: leads_def)
  then show ?thesis
    by (simp add: FindStringSubmatch_def provider_rx_def suffix_rx_def version_rx_def)
qed

lemma FindStringSubmatch_versioned:
  assumes "is_provider_name name" "is_component a" "is_component b" "is_component c"
  shows "FindStringSubmatch provider_rx (''terraform-provider-'' @ name @ ''-'' @ a @ ''.'' @ b @ ''.'' @ c)
           = [''terraform-provider-'' @ name @ ''-'' @ a @ ''.'' @ b @ ''.'' @ c, name, a @ ''.'' @ b @ ''.'' @ c]"
proof -
  let ?v = "a @ ''.'' @ b @ ''.'' @ c"
  obtain d t where a: "a = d # t" "is_digit d" using component_cases [OF assms(2)] by blast
  then have v: "?v = d # (t @ ''.'' @ b @ ''.'' @ c)" by simp
  obtain xs where g: "run (Grp 1 (Plus NonDigit)) (Map.empty, name @ ''-'' @ ?v)
      = ([1 \<mapsto> name @ ''-''], ?v) # ([1 \<mapsto> name], ''-'' @ ?v) # xs"
    using run_name_hyphen [OF assms(1) a(2), of Map.empty "t @ ''.'' @ b @ ''.'' @ c"] a(1) by auto
  have dead: "run suffix_rx ([1 \<mapsto> name @ ''-''], ?v) = []"
    unfolding v by (rule run_suffix_rx_digit [OF a(2)])
  obtain ys where live: "run suffix_rx ([1 \<mapsto> name], ''-'' @ ?v) = ([1 \<mapsto> name, 2 \<mapsto> ?v], []) # ys"
    using leads_suffix_rx_version [OF assms(2-4), of "[1 \<mapsto> name]"] by (auto simp: leads_def)
  have "run (Cat (Grp 1 (Plus NonDigit)) suffix_rx) (Map.empty, name @ ''-'' @ ?v)
          = ([1 \<mapsto> name, 2 \<mapsto> ?v], []) # ys @ concat (map (run suffix_rx) xs)"
    using g dead live by simp
  then have "run provider_rx (Map.empty, ''terraform-provider-'' @ name @ ''-'' @ ?v)
          = ([1 \<mapsto> name, 2 \<mapsto> ?v], []) # ys @ concat (map (run suffix_rx) xs)"
    by (simp add: provider_rx_def)
  then show ?thesis
    by (simp add: FindStringSubmatch_def provider_rx_def suffix_rx_def version_rx_def)
qed

subsection \<open>Every match is in the language of the pattern\<close>

lemma take_within_takeWhile:
  assumes "n \<le> length (takeWhile P s)"
  shows "\<forall>c \<in> set (take n s). P c"
proof -
  have "take n s = take n (takeWhile P s)"
    using assms by (metis takeWhile_dropWhile_id take_append diff_is_0_eq take_0 append_Nil2)
  then show ?thesis by (auto dest: in_set_takeD set_takeWhileD)
qed

lemma run_sound:
  "(cs', s') \<in> set (run r (cs, s)) \<Longrightarrow> \<exists>u. s = u @ s' \<and> den r u s'"
proof (induction r arbitrary: cs s cs' s')
  case (Lit w)
  then show ?case by (auto split: if_splits) (metis append_take_drop_id)
next
  case (Cat a b)
  then obtain c1 s1 where 1: "(c1, s1) \<in> set (run a (cs, s))" and 2: "(cs', s') \<in> set (run b (c1, s1))"
    by auto
  from Cat.IH(1) [OF 1] obtain u1 where u1: "s = u1 @ s1" "den a u1 s1" by blast
  from Cat.IH(2) [OF 2] obtain u2 where u2: "s1 = u2 @ s'" "den b u2 s'" by blast
  have "s = (u1 @ u2) @ s'" using u1 u2 by simp
  moreover have "den (Cat a b) (u1 @ u2) s'" using u1 u2 by auto
  ultimately show ?case by blast
next
  case (Opt a)
  from Opt.prems have "(cs', s') \<in> set (run a (cs, s)) \<or> (cs', s') = (cs, s)" by auto
  then show ?case
  proof
    assume "(cs', s') \<in> set (run a (cs, s))"
    from Opt.IH [OF this] show ?thesis by auto
  next
    assume "(cs', s') = (cs, s)"
    then show ?thesis by simp
  qed
next
  case (Plus k)
  then obtain n where n: "1 \<le> n" "n \<le> length (takeWhile (in_cls k) s)" "s' = drop n s"
    by (auto simp del: upt_Suc simp: less_Suc_eq_le)
  have "s = take n s @ s'" using n by simp
  moreover have "take n s \<noteq> []" using n by (auto dest: length_takeWhile_le [THEN le_trans, rotated])
  moreover have "\<forall>c \<in> set (take n s). in_cls k c" using n(2) by (rule take_within_takeWhile)
  ultimately show ?case by (metis den.simps(4))
next
  case (Star k)
  then obtain n where n: "n \<le> length (takeWhile (in_cls k) s)" "s' = drop n s"
    by (auto simp del: upt_Suc simp: less_Suc_eq_le)
  have "s = take n s @ s'" using n by simp
  moreover have "\<forall>c \<in> set (take n s). in_cls k c" using n(1) by (rule take_within_takeWhile)
  ultimately show ?case by (metis den.simps(5))
next
  case (Grp i a)
  then show ?case by auto
next
  case Eot
  then show ?case by (auto split: if_splits)
qed

lemma den_version_rx: "den version_rx u v \<Longrightarrow> is_version_suffix (''-'' @ u)"
  unfolding version_rx_def is_version_suffix_def is_component_def digits_def
  by auto

lemma den_suffix_rx:
  assumes "den suffix_rx u []"
  shows "\<exists>ver pre. u = ver @ pre \<and> (ver = [] \<or> is_version_suffix ver) \<and> (pre = [] \<or> is_pre_suffix pre)"
proof -
  from assms obtain ver pre where u: "u = ver @ pre"
    and ver: "ver = [] \<or> (\<exists>w. ver = ''-'' @ w \<and> den version_rx w pre)"
    and pre: "pre = [] \<or> (\<exists>ds. pre = ''-pre'' @ ds \<and> (\<forall>c \<in> set ds. is_digit c))"
    unfolding suffix_rx_def by auto
  from ver have "ver = [] \<or> is_version_suffix ver" by (auto dest: den_version_rx)
  moreover from pre have "pre = [] \<or> is_pre_suffix pre"
    by (auto simp: is_pre_suffix_def digits_def)
  ultimately show ?thesis using u by blast
qed

lemma den_provider_rx:
  assumes "den provider_rx b []"
  shows "matches_provider_pattern b"
proof -
  from assms obtain name u where b: "b = ''terraform-provider-'' @ name @ u"
    and name: "name \<noteq> []" "\<forall>c \<in> set name. \<not> is_digit c" and u: "den suffix_rx u []"
    unfolding provider_rx_def by auto
  from den_suffix_rx [OF u] obtain ver pre where "u = ver @ pre"
    "ver = [] \<or> is_version_suffix ver" "pre = [] \<or> is_pre_suffix pre" by blast
  then show ?thesis using b name unfolding matches_provider_pattern_def is_provider_name_def by blast
qed

lemma run_Eot_rest: "x \<in> set (run Eot st) \<Longrightarrow> snd x = []"
  by (cases st) (auto split: if_splits)

lemma run_Cat_rest:
  assumes "\<And>st' x. x \<in> set (run b st') \<Longrightarrow> snd x = []" and "x \<in> set (run (Cat a b) st)"
  shows "snd x = []"
proof -
  from assms(2) obtain st' where "x \<in> set (run b st')" by auto
  then show ?thesis by (rule assms(1))
qed

lemma run_provider_rx_rest:
  assumes "(cs', s') \<in> set (run provider_rx st)"
  shows "s' = []"
proof -
  have "snd (cs', s') = []"
    using assms unfolding provider_rx_def suffix_rx_def
    by - ((erule run_Cat_rest [rotated])+, erule run_Eot_rest)
  then show ?thesis by simp
qed

lemma FindStringSubmatch_match:
  assumes "FindStringSubmatch provider_rx b \<noteq> []"
  shows "matches_provider_pattern b"
proof -
  from assms obtain cs' s' xs where r: "run provider_rx (Map.empty, b) = (cs', s') # xs"
    by (auto simp: FindStringSubmatch_def split: list.splits)
  then have m: "(cs', s') \<in> set (run provider_rx (Map.empty, b))" by simp
  then have "s' = []" by (rule run_provider_rx_rest)
  with run_sound [OF m] have "den provider_rx b []" by auto
  then show ?thesis by (rule den_provider_rx)
qed

subsection \<open>Every text of the pattern is matched\<close>

lemma den_CatI: "den a u1 (u2 @ v) \<Longrightarrow> den b u2 v \<Longrightarrow> den (Cat a b) (u1 @ u2) v"
  by auto

lemma length_le_takeWhile:
  "\<forall>c \<in> set u. P c \<Longrightarrow> length u \<le> length (takeWhile P (u @ v))"
  by (simp add: takeWhile_append2)

lemma run_complete:
  "den r u v \<Longrightarrow> \<exists>cs'. (cs', v) \<in> set (run r (cs, u @ v))"
proof (induction r arbitrary: cs u v)
  case (Lit w)
  then show ?case by simp
next
  case (Cat a b)
  then obtain u1 u2 where u: "u = u1 @ u2" and a: "den a u1 (u2 @ v)" and b: "den b u2 v"
    by auto
  from Cat.IH(1) [OF a] obtain c1 where 1: "(c1, u2 @ v) \<in> set (run a (cs, u1 @ u2 @ v))" by blast
  from Cat.IH(2) [OF b] obtain c2 where 2: "(c2, v) \<in> set (run b (c1, u2 @ v))" by blast
  from 1 2 have "(c2, v) \<in> set (run (Cat a b) (cs, u @ v))" unfolding u by force
  then show ?case by blast
next
  case (Opt a)
  from Opt.prems have "u = [] \<or> den a u v" by simp
  then show ?case
  proof
    assume "u = []"
    then show ?thesis by auto
  next
    assume "den a u v"
    from Opt.IH [OF this] show ?thesis by auto
  qed
next
  case (Plus k)
  then have ne: "u \<noteq> []" and cl: "\<forall>c \<in> set u. in_cls k c" by auto
  have "length u \<le> length (takeWhile (in_cls k) (u @ v))" using cl by (rule length_le_takeWhile)
  moreover have "1 \<le> length u" using ne by (simp add: Suc_le_eq)
  ultimately have "length u \<in> set (rev [1 ..< Suc (length (takeWhile (in_cls k) (u @ v)))])"
    by (simp del: upt_Suc)
  then have "(cs, drop (length u) (u @ v))
      \<in> set (map (\<lambda>n. (cs, drop n (u @ v))) (rev [1 ..< Suc (length (takeWhile (in_cls k) (u @ v)))]))"
    unfolding set_map by (rule imageI)
  then have "(cs, drop (length u) (u @ v)) \<in> set (run (Plus k) (cs, u @ v))"
    by (simp only: run.simps)
  then show ?case by auto
next
  case (Star k)
  then have cl: "\<forall>c \<in> set u. in_cls k c" by auto
  have "length u \<le> length (takeWhile (in_cls k) (u @ v))" using cl by (rule length_le_takeWhile)
  then have "length u \<in> set (rev [0 ..< Suc (length (takeWhile (in_cls k) (u @ v)))])"
    by (simp del: upt_Suc)
  then have "(cs, drop (length u) (u @ v))
      \<in> set (map (\<lambda>n. (cs, drop n (u @ v))) (rev [0 ..< Suc (length (takeWhile (in_cls k) (u @ v)))]))"
    unfolding set_map by (rule imageI)
  then have "(cs, drop (length u) (u @ v)) \<in> set (run (Star k) (cs, u @ v))"
    by (simp only: run.simps)
  then show ?case by auto
next
  case (Grp i a)
  then have "den a u v" by simp
  from Grp.IH [OF this] obtain c1 where "(c1, v) \<in> set (run a (cs, u @ v))" by blast
  then have "(c1(i \<mapsto> take (length (u @ v) - length v) (u @ v)), v) \<in> set (run (Grp i a) (cs, u @ v))"
    by force
  then show ?case by blast
next
  case Eot
  then show ?case by simp
qed

lemma den_LitI: "den (Lit w) w v"
  by simp

lemma den_OptI: "den a u v \<Longrightarrow> den (Opt a) u v"
  by simp

lemma den_Opt_nil: "den (Opt a) [] v"
  by simp

lemma den_GrpI: "den a u v \<Longrightarrow> den (Grp i a) u v"
  by simp

lemma den_Cat_nil: "den a u v \<Longrightarrow> den b [] v \<Longrightarrow> den (Cat a b) u v"
  using den_CatI [of a u "[]" v b] by simp

lemma den_component: "is_component a \<Longrightarrow> den (Plus Digit) a v"
  by (simp add: is_component_def digits_def)

lemma den_version_rx_intro:
  assumes "is_version_suffix (''-'' @ w)"
  shows "den version_rx w v"
proof -
  let ?tail2 = "Opt (Cat (Lit ''.'') (Plus Digit))"
  let ?tail1 = "Opt (Cat (Lit ''.'') (Cat (Plus Digit) ?tail2))"
  have one: "den version_rx a v" if a: "is_component a" for a
    unfolding version_rx_def by (rule den_Cat_nil [OF den_component [OF a] den_Opt_nil])
  have two: "den version_rx (a @ ''.'' @ b) v" if a: "is_component a" and b: "is_component b" for a b
  proof -
    have m: "den (Cat (Plus Digit) ?tail2) b v"
      by (rule den_Cat_nil [OF den_component [OF b] den_Opt_nil])
    have t1: "den ?tail1 (''.'' @ b) v"
      by (rule den_OptI [OF den_CatI [OF den_LitI m]])
    show ?thesis unfolding version_rx_def by (rule den_CatI [OF den_component [OF a] t1])
  qed
  have three: "den version_rx (a @ ''.'' @ b @ ''.'' @ c) v"
    if a: "is_component a" and b: "is_component b" and c: "is_component c" for a b c
  proof -
    have t2: "den ?tail2 (''.'' @ c) v"
      by (rule den_OptI [OF den_CatI [OF den_LitI den_component [OF c]]])
    have m: "den (Cat (Plus Digit) ?tail2) (b @ ''.'' @ c) v"
      by (rule den_CatI [OF den_component [OF b] t2])
    have t1: "den ?tail1 (''.'' @ b @ ''.'' @ c) v"
      by (rule den_OptI [OF den_CatI [OF den_LitI m]])
    show ?thesis unfolding version_rx_def by (rule den_CatI [OF den_component [OF a] t1])
  qed
  from assms consider a where "is_component a" "w = a"
    | a b where "is_component a" "is_component b" "w = a @ ''.'' @ b"
    | a b c where "is_component a" "is_component b" "is_component c" "w = a @ ''.'' @ b @ ''.'' @ c"
    unfolding is_version_suffix_def by auto
  then show ?thesis
  proof cases
    case 1 then show ?thesis using one by simp
  next
    case 2 then show ?thesis using two by simp
  next
    case 3 then show ?thesis using three by simp
  qed
qed

lemma version_suffix_hyphen: "is_version_suffix ver \<Longrightarrow> \<exists>w. ver = ''-'' @ w"
  unfolding is_version_suffix_def by auto

lemma den_suffix_rx_intro:
  assumes "ver = [] \<or> is_version_suffix ver" "pre = [] \<or> is_pre_suffix pre"
  shows "den suffix_rx (ver @ pre) []"
proof -
  have v: "den (Opt (Cat (Lit ''-'') (Grp 2 version_rx))) ver (pre @ [])"
  proof (cases "ver = []")
    case True
    then show ?thesis by simp
  next
    case False
    then have vs: "is_version_suffix ver" using assms(1) by simp
    then obtain w where w: "ver = ''-'' @ w" using version_suffix_hyphen by blast
    have "den version_rx w (pre @ [])" using vs unfolding w by (rule den_version_rx_intro)
    then show ?thesis unfolding w by (intro den_OptI den_CatI den_LitI den_GrpI)
  qed
  have p: "den (Opt (Cat (Lit ''-pre'') (Star Digit))) pre []"
  proof (cases "pre = []")
    case True
    then show ?thesis by simp
  next
    case False
    then obtain ds where ds: "digits ds" "pre = ''-pre'' @ ds"
      using assms(2) unfolding is_pre_suffix_def by blast
    have "den (Star Digit) ds []" using ds(1) by (simp add: digits_def)
    then show ?thesis unfolding ds(2) by (intro den_OptI den_CatI den_LitI)
  qed
  have e: "den Eot [] []" by simp
  have "den (Cat (Opt (Cat (Lit ''-pre'') (Star Digit))) Eot) pre []"
    by (rule den_Cat_nil [OF p e])
  with v show ?thesis unfolding suffix_rx_def by (rule den_CatI)
qed

lemma den_provider_rx_intro:
  assumes "matches_provider_pattern b"
  shows "den provider_rx b []"
proof -
  from assms obtain name ver pre where b: "b = ''terraform-provider-'' @ name @ ver @ pre"
    and n: "is_provider_name name" and v: "ver = [] \<or> is_version_suffix ver"
    and p: "pre = [] \<or> is_pre_suffix pre"
    unfolding matches_provider_pattern_def by blast
  have s: "den suffix_rx (ver @ pre) []" using v p by (rule den_suffix_rx_intro)
  have g: "den (Grp 1 (Plus NonDigit)) name ((ver @ pre) @ [])"
    using n by (simp add: is_provider_name_def)
  have m: "den (Cat (Grp 1 (Plus NonDigit)) suffix_rx) (name @ ver @ pre) []"
    using g s by (rule den_CatI)
  show ?thesis unfolding b provider_rx_def by (rule den_CatI [OF den_LitI m])
qed

text \<open>
  The matcher finds a match for the provider pattern exactly on the texts that the
  specification's wording of the pattern describes.
\<close>

lemma FindStringSubmatch_iff:
  "(FindStringSubmatch provider_rx b \<noteq> []) = matches_provider_pattern b"
proof
  assume "FindStringSubmatch provider_rx b \<noteq> []"
  then show "matches_provider_pattern b" by (rule FindStringSubmatch_match)
next
  assume "matches_provider_pattern b"
  then have "den provider_rx b []" by (rule den_provider_rx_intro)
  from run_complete [OF this, of Map.empty]
  obtain cs' where "(cs', []) \<in> set (run provider_rx (Map.empty, b))" by auto
  then have "run provider_rx (Map.empty, b) \<noteq> []" by auto
  then show "FindStringSubmatch provider_rx b \<noteq> []"
    by (auto simp: FindStringSubmatch_def split: list.splits)
qed

subsection \<open>Resolution from the binary name\<close>

text \<open>
  C5: without an override, a binary name made of \<^verbatim>\<open>terraform-provider-\<close> and a name
  of one or more non-digit characters resolves to that name, and so does such a binary
  name followed by a version suffix \<^verbatim>\<open>-major.minor.patch\<close>.
\<close>

theorem binary_name_resolution:
  assumes "env EnvProviderNameVar = None" and "is_provider_name name"
    and "filepath_Base arg0 = ''terraform-provider-'' @ name
         \<or> (\<exists>major minor patch. is_component major \<and> is_component minor \<and> is_component patch
              \<and> filepath_Base arg0
                  = ''terraform-provider-'' @ name @ ''-'' @ major @ ''.'' @ minor @ ''.'' @ patch)"
  shows "getProviderNameFromBinaryOrEnvironment env arg0 = name"
proof -
  have "\<exists>g. FindStringSubmatch provider_rx (filepath_Base arg0) = [filepath_Base arg0, name, g]"
    using assms(3)
  proof
    assume "filepath_Base arg0 = ''terraform-provider-'' @ name"
    then show ?thesis using FindStringSubmatch_plain [OF assms(2)] by simp
  next
    assume "\<exists>major minor patch. is_component major \<and> is_component minor \<and> is_component patch
              \<and> filepath_Base arg0
                  = ''terraform-provider-'' @ name @ ''-'' @ major @ ''.'' @ minor @ ''.'' @ patch"
    then obtain major minor patch where c: "is_component major" "is_component minor" "is_component patch"
      and b: "filepath_Base arg0
                = ''terraform-provider-'' @ name @ ''-'' @ major @ ''.'' @ minor @ ''.'' @ patch"
      by blast
    show ?thesis unfolding b using FindStringSubmatch_versioned [OF assms(2) c] by blast
  qed
  then obtain g where "FindStringSubmatch provider_rx (filepath_Base arg0) = [filepath_Base arg0, name, g]"
    by blast
  then show ?thesis
    using assms(1) by (simp add: getProviderNameFromBinaryOrEnvironment_def Let_def)
qed

theorem binary_name_resolution_witness:
  "getProviderNameFromBinaryOrEnvironment Map.empty ''/usr/local/bin/terraform-provider-widget-1.2.3'' = ''widget''
   \<and> getProviderNameFromBinaryOrEnvironment Map.empty ''terraform-provider-widget'' = ''widget''"
proof -
  have n: "is_provider_name ''widget''" by (simp add: is_provider_name_def is_digit_def)
  have c: "is_component ''1''" "is_component ''2''" "is_component ''3''"
    by (simp_all add: is_component_def digits_def is_digit_def)
  have b1: "filepath_Base ''/usr/local/bin/terraform-provider-widget-1.2.3''
      = ''terraform-provider-'' @ ''widget'' @ ''-'' @ ''1'' @ ''.'' @ ''2'' @ ''.'' @ ''3''"
    by (simp add: filepath_Base_def)
  have b2: "filepath_Base ''terraform-provider-widget'' = ''terraform-provider-'' @ ''widget''"
    by (simp add: filepath_Base_def)
  have "getProviderNameFromBinaryOrEnvironment Map.empty ''/usr/local/bin/terraform-provider-widget-1.2.3'' = ''widget''"
    using binary_name_resolution [of Map.empty "''widget''" "''/usr/local/bin/terraform-provider-widget-1.2.3''"]
      n c b1 by blast
  moreover have "getProviderNameFromBinaryOrEnvironment Map.empty ''terraform-provider-widget'' = ''widget''"
    using binary_name_resolution [of Map.empty "''widget''" "''terraform-provider-widget''"] n b2 by blast
  ultimately show ?thesis by simp
qed

text \<open>
  C6: without an override, a binary name that does not match the pattern resolves to the
  default identity; \<^verbatim>\<open>debug.test\<close> is one. Resolution is a total function into the
  identities, so it always yields a value and has no error result. By
  \<open>FindStringSubmatch_iff\<close>, the names that do not match the pattern are exactly those
  on which the search of the source finds nothing.
\<close>

theorem unmatched_binary_name_default:
  "(env EnvProviderNameVar = None \<and> \<not> matches_provider_pattern (filepath_Base arg0)
      \<longrightarrow> getProviderNameFromBinaryOrEnvironment env arg0 = DefaultProviderName)
   \<and> (env EnvProviderNameVar = None
      \<longrightarrow> getProviderNameFromBinaryOrEnvironment env ''debug.test'' = ''universe'')"
proof -
  have "FindStringSubmatch provider_rx (filepath_Base arg0) = []"
    if "\<not> matches_provider_pattern (filepath_Base arg0)"
    using that FindStringSubmatch_match by blast
  moreover have "FindStringSubmatch provider_rx (filepath_Base ''debug.test'') = []"
    by (simp add: filepath_Base_def FindStringSubmatch_def provider_rx_def)
  ultimately show ?thesis
    by (auto simp: getProviderNameFromBinaryOrEnvironment_def Let_def DefaultProviderName_def)
qed

theorem unmatched_binary_name_default_witness:
  "\<not> matches_provider_pattern (filepath_Base ''/tmp/go-build/debug.test'')
   \<and> getProviderNameFromBinaryOrEnvironment Map.empty ''/tmp/go-build/debug.test'' = ''universe''"
proof -
  have base: "filepath_Base ''/tmp/go-build/debug.test'' = ''debug.test''"
    by (simp add: filepath_Base_def)
  have unmatched: "\<not> matches_provider_pattern (filepath_Base ''/tmp/go-build/debug.test'')"
    unfolding base by (simp add: matches_provider_pattern_def)
  from unmatched_binary_name_default [of Map.empty "''/tmp/go-build/debug.test''"] unmatched
  show ?thesis by (simp add: DefaultProviderName_def)
qed

end
